theory Spec2Isabelle
  imports Main
begin

section \<open>Notelock: the ephemeral store and its request handlers (src/app.js)\<close>

subsection \<open>JavaScript values and truthiness\<close>

text \<open>
  The values that flow through the handlers: a request field that is absent
  (\<open>undefined\<close>), an SQL NULL read back from the table (\<open>null\<close>), the \<open>false\<close> that
  \<open>dbFindData\<close> returns when no row matches, and strings. Array- and object-valued
  request fields are outside this model.
\<close>

datatype jsval = Undefined | Null | JFalse | Str string

text \<open>What \<open>if (v)\<close> and \<open>!v\<close> test: the empty string is falsy.\<close>

fun truthy :: "jsval \<Rightarrow> bool" where
  "truthy Undefined = False"
| "truthy Null = False"
| "truthy JFalse = False"
| "truthy (Str s) = (s \<noteq> [])"

subsection \<open>Configuration (the constants at the top of src/app.js)\<close>

text \<open>Durations are in the units the source gives them; request counts are naturals.\<close>

definition exInterval :: int where "exInterval = 5"
definition noteLife :: int where "noteLife = 24"
definition spdTimeWindow :: int where "spdTimeWindow = 15"
definition spdMaxRequests :: nat where "spdMaxRequests = 1"
definition spdMaxDelayTime :: int where "spdMaxDelayTime = 10"
definition encTimeWindow :: int where "encTimeWindow = 30"
definition encMaxRequests :: nat where "encMaxRequests = 10"
definition reqTimeWindow :: int where "reqTimeWindow = 15"
definition reqMaxRequests :: nat where "reqMaxRequests = 100"
definition apiOnly :: bool where "apiOnly = False"

subsection \<open>Timestamps\<close>

text \<open>
  Time is the JavaScript time value: milliseconds since 1970-01-01T00:00:00Z.
  \<open>getTimeStamp\<close> is \<open>new Date().toISOString()\<close>; the sweep compares the stored
  text with SQLite's \<open>datetime('now', '-24 hours')\<close>. Both are written out, since
  the sweep's comparison is a comparison of these two texts. Both use the
  proleptic Gregorian calendar with a year 0.
\<close>

definition digit_char :: "nat \<Rightarrow> char" where
  "digit_char d = ''0123456789'' ! (d mod 10)"

fun pad :: "nat \<Rightarrow> nat \<Rightarrow> string" where
  "pad 0 k = []"
| "pad (Suc n) k = pad n (k div 10) @ [digit_char k]"

text \<open>Days since the epoch to the proleptic Gregorian (year, month, day).\<close>

definition civil_from_days :: "int \<Rightarrow> int \<times> int \<times> int" where
  "civil_from_days z =
     (let z' = z + 719468;
          era = z' div 146097;
          doe = z' mod 146097;
          yoe = (doe - doe div 1460 + doe div 36524 - doe div 146096) div 365;
          doy = doe - (365 * yoe + yoe div 4 - yoe div 100);
          mp = (5 * doy + 2) div 153;
          d = doy - (153 * mp + 2) div 5 + 1;
          m = (if mp < 10 then mp + 3 else mp - 9);
          y = yoe + era * 400 + (if m \<le> 2 then 1 else 0)
      in (y, m, d))"

text \<open>
  The date as SQLite prints it: four digits of the year, with a minus sign in front
  for a year before 0.
\<close>

definition date_text :: "int \<Rightarrow> int \<Rightarrow> int \<Rightarrow> string" where
  "date_text y m d =
     (if y < 0 then ''-'' else []) @ pad 4 (nat \<bar>y\<bar>) @ ''-'' @ pad 2 (nat m) @ ''-'' @
     pad 2 (nat d)"

definition clock_text :: "int \<Rightarrow> string" where
  "clock_text ms =
     pad 2 (nat (ms div 3600000)) @ '':'' @ pad 2 (nat (ms div 60000 mod 60)) @ '':'' @
     pad 2 (nat (ms div 1000 mod 60))"

text \<open>
  \<open>Date.prototype.toISOString\<close>: \<open>YYYY-MM-DDTHH:mm:ss.sssZ\<close>; years outside
  0..9999 use the expanded form with a sign and six digits.
\<close>

definition toISOString :: "int \<Rightarrow> string" where
  "toISOString t =
     (let (y, m, d) = civil_from_days (t div 86400000);
          ms = t mod 86400000;
          year = (if 0 \<le> y \<and> y \<le> 9999 then pad 4 (nat y)
                  else (if y < 0 then ''-'' else ''+'') @ pad 6 (nat \<bar>y\<bar>))
      in year @ ''-'' @ pad 2 (nat m) @ ''-'' @ pad 2 (nat d) @ ''T'' @ clock_text ms @
         ''.'' @ pad 3 (nat (ms mod 1000)) @ ''Z'')"

definition getTimeStamp :: "int \<Rightarrow> string" where
  "getTimeStamp now = toISOString now"

text \<open>
  SQLite's \<open>datetime('now', '-h hours')\<close>: \<open>YYYY-MM-DD HH:MM:SS\<close> in UTC, with a
  space between date and time and no fraction. The result is NULL when the moment
  is outside SQLite's range of Julian day numbers, which runs from noon of
  24 November of the year -4713 (210866760000000 milliseconds before 1970) to the
  last millisecond of the year 9999.
\<close>

definition sqlite_datetime_hours_ago :: "int \<Rightarrow> int \<Rightarrow> string option" where
  "sqlite_datetime_hours_ago now h =
     (let t = now - h * 3600000;
          (y, m, d) = civil_from_days (t div 86400000)
      in if - 210866760000000 \<le> t \<and> t \<le> 253402300799999
         then Some (date_text y m d @ '' '' @ clock_text (t mod 86400000))
         else None)"

text \<open>SQLite's \<open><\<close> on two TEXT values (BINARY collation): bytewise, a proper prefix is smaller.\<close>

fun text_less :: "string \<Rightarrow> string \<Rightarrow> bool" where
  "text_less [] [] = False"
| "text_less [] (y # ys) = True"
| "text_less (x # xs) [] = False"
| "text_less (x # xs) (y # ys) =
     ((of_char x :: nat) < of_char y \<or> (x = y \<and> text_less xs ys))"

subsection \<open>The table \<open>notelock (uuid, note, created)\<close>\<close>

text \<open>
  The table is created with \<open>uuid TEXT PRIMARY_KEY\<close>, which declares no key: the
  table is a sequence of rows in insertion order and may hold several rows with one
  uuid. The \<open>note\<close> column (\<open>note_col\<close>) holds text or NULL (\<open>None\<close>).
\<close>

record row =
  uuid :: string
  note_col :: "string option"
  created :: string

type_synonym table = "row list"

text \<open>Binding a JavaScript value as a statement parameter: \<open>undefined\<close> and \<open>null\<close> bind NULL.\<close>

fun bind_text :: "jsval \<Rightarrow> string option" where
  "bind_text (Str s) = Some s"
| "bind_text v = None"

text \<open>Reading a column back: NULL is \<open>null\<close>.\<close>

fun column_value :: "string option \<Rightarrow> jsval" where
  "column_value None = Null"
| "column_value (Some s) = Str s"

definition dbAddData :: "string \<Rightarrow> jsval \<Rightarrow> int \<Rightarrow> table \<Rightarrow> table" where
  "dbAddData newID cipherText now db =
     db @ [\<lparr>uuid = newID, note_col = bind_text cipherText, created = getTimeStamp now\<rparr>]"

text \<open>\<open>find.get\<close> yields the first matching row, or \<open>undefined\<close>.\<close>

definition dbFindData :: "string \<Rightarrow> table \<Rightarrow> jsval" where
  "dbFindData primaryKeyId db =
     (case find (\<lambda>r. uuid r = primaryKeyId) db of
        Some r \<Rightarrow> column_value (note_col r)
      | None \<Rightarrow> JFalse)"

definition dbDeleteValue :: "string \<Rightarrow> table \<Rightarrow> table" where
  "dbDeleteValue primaryKeyId db = filter (\<lambda>r. uuid r \<noteq> primaryKeyId) db"

text \<open>
  \<open>DELETE FROM notelock WHERE created < datetime('now', '-24 hours')\<close>: a row goes
  when the comparison is true; against NULL it never is.
\<close>

definition dbExpireValue :: "int \<Rightarrow> table \<Rightarrow> table" where
  "dbExpireValue now db =
     (case sqlite_datetime_hours_ago now noteLife of
        None \<Rightarrow> db
      | Some threshold \<Rightarrow> filter (\<lambda>r. \<not> text_less (created r) threshold) db)"

subsection \<open>Responses\<close>

text \<open>
  One constructor for each place where a handler or a limiter answers:
  \<open>Render_note c\<close> is line 329 (\<open>note.ejs\<close> with the cipher that was found),
  \<open>Render_note_not_found\<close> is line 334 (the branch that logs "Note was not found" and
  renders \<open>note.ejs\<close> with \<open>cipher: ''\<close>), \<open>Render_note_apionly\<close> line 339,
  \<open>Render_index\<close> line 342, \<open>Json_id url\<close> line 309, \<open>Redirect_root\<close> line 349,
  \<open>Json_error_encryption\<close> the handler of \<open>encLimiter\<close> (line 115),
  \<open>Render_note_error_requests\<close> the handler of \<open>reqLimiter\<close> (line 130), and
  \<open>Error_500\<close> the answer of Express when a handler throws.
\<close>

datatype response =
    Render_note jsval
  | Render_note_not_found
  | Render_note_apionly
  | Render_index
  | Json_id string
  | Redirect_root
  | Json_error_encryption
  | Render_note_error_requests
  | Error_500


subsection \<open>The read path: \<open>app.get('/')\<close>\<close>

text \<open>\<open>String.prototype.substring(a, b)\<close> on a string of code units.\<close>

definition substring :: "string \<Rightarrow> nat \<Rightarrow> nat \<Rightarrow> string" where
  "substring s a b = take (max a b - min a b) (drop (min a b) s)"

definition front_page :: response where
  "front_page = (if apiOnly then Render_note_apionly else Render_index)"

text \<open>The argument is \<open>req.query.n\<close>; the result is the response and the table afterwards.\<close>

fun get_root :: "jsval \<Rightarrow> table \<Rightarrow> response \<times> table" where
  "get_root (Str n) db =
     (if truthy (Str n) then
        (let noteId = substring n 0 21;
             cipherText = dbFindData noteId db
         in if truthy cipherText
            then (Render_note cipherText, dbDeleteValue noteId db)
            else (Render_note_not_found, db))
      else (front_page, db))"
| "get_root v db = (front_page, db)"

subsection \<open>The write path: \<open>app.post('/encrypt')\<close>\<close>

text \<open>
  \<open>req.body\<close>: the form that \<open>express.urlencoded\<close> parsed, given by the value of its
  \<open>cipher\<close> field (\<open>Undefined\<close> when the form has no such field), or \<open>undefined\<close>
  when the request carried no body that the parser accepts.
\<close>

datatype reqbody = Body_undefined | Body_form jsval

datatype js_error = TypeError

text \<open>
  Line 302, \<open>dbAddData(noteId, note.cipher)\<close>: reading \<open>cipher\<close> from an undefined
  body throws, and then nothing is inserted.
\<close>

fun add_note :: "string \<Rightarrow> reqbody \<Rightarrow> int \<Rightarrow> table \<Rightarrow> js_error + table" where
  "add_note noteId Body_undefined now db = Inl TypeError"
| "add_note noteId (Body_form cipher) now db = Inr (dbAddData noteId cipher now db)"

text \<open>
  \<open>nanoid()\<close> is a source of identifiers: \<open>nanoid i\<close> is the \<open>i\<close>-th identifier it
  hands out. The \<open>while (true)\<close> loop draws identifiers until \<open>dbFindData\<close> is falsy
  for one, then inserts. The loop has no other exit, so it is a partial function:
  \<open>None\<close> is the request that never completes. The result carries the number of
  identifiers drawn so far, the identifier chosen, and the table after the insert
  or the error the insert threw.
\<close>

partial_function (option) post_encrypt_loop ::
  "(nat \<Rightarrow> string) \<Rightarrow> nat \<Rightarrow> reqbody \<Rightarrow> int \<Rightarrow> table \<Rightarrow>
     (nat \<times> string \<times> (js_error + table)) option" where
  "post_encrypt_loop nanoid i note now db =
     (let noteId = nanoid i
      in if \<not> truthy (dbFindData noteId db)
         then Some (Suc i, noteId, add_note noteId note now db)
         else post_encrypt_loop nanoid (Suc i) note now db)"

declare post_encrypt_loop.simps [code]

definition noteUrl :: "string \<Rightarrow> string \<Rightarrow> string" where
  "noteUrl host noteId = ''https://'' @ host @ ''/?n='' @ noteId @ ''#''"

text \<open>
  The handler: \<open>note\<close> is \<open>req.body\<close>, \<open>host\<close> the Host header. There is no check
  of \<open>note.cipher\<close> anywhere on this path. When the loop throws, the lines after it
  do not run, the table is as it was, and Express answers the error.
\<close>

definition post_encrypt ::
  "(nat \<Rightarrow> string) \<Rightarrow> nat \<Rightarrow> string \<Rightarrow> reqbody \<Rightarrow> int \<Rightarrow> table \<Rightarrow>
     (response \<times> nat \<times> table) option" where
  "post_encrypt nanoid i host note now db =
     (case post_encrypt_loop nanoid i note now db of
        None \<Rightarrow> None
      | Some (i', noteId, Inl e) \<Rightarrow> Some (Error_500, i', db)
      | Some (i', noteId, Inr db') \<Rightarrow> Some (Json_id (noteUrl host noteId), i', db'))"

subsection \<open>Admission control\<close>

text \<open>
  Modelled from the spec: the window counter that the middlewares built by
  \<open>rateLimit(...)\<close> and \<open>slowDown(...)\<close> keep for each client. The packages
  express-rate-limit and express-slow-down are not under src/; only their options
  are. Following the spec's ClientWindowState, a window has a start and a count of
  the requests seen since; the count starts again from zero once the current time
  exceeds \<open>windowStart + windowLength\<close>, and a client without a window opens one
  with its first request.
\<close>

record window_state =
  windowStart :: int
  count :: nat

type_synonym limiter_state = "string \<Rightarrow> window_state option"

definition current_window :: "int \<Rightarrow> int \<Rightarrow> window_state option \<Rightarrow> window_state" where
  "current_window windowMs now w =
     (case w of
        None \<Rightarrow> \<lparr>windowStart = now, count = 0\<rparr>
      | Some w \<Rightarrow> if windowStart w + windowMs < now
                  then \<lparr>windowStart = now, count = 0\<rparr> else w)"

text \<open>
  Modelled from the spec: counting one request in a client's window, as the
  stores of express-rate-limit and express-slow-down (not under src/) do it. The
  result is the client's count including this request, and the new state.
\<close>

definition hit :: "int \<Rightarrow> int \<Rightarrow> string \<Rightarrow> limiter_state \<Rightarrow> nat \<times> limiter_state" where
  "hit windowMs now clientKey st =
     (let w = current_window windowMs now (st clientKey);
          n = Suc (count w)
      in (n, st(clientKey := Some (w\<lparr>count := n\<rparr>))))"

text \<open>
  Modelled from the spec: a hard limiter (the middleware \<open>rateLimit\<close> returns, not
  under src/). It counts the request and rejects it when the count exceeds the cap;
  \<open>True\<close> passes the request on to the next middleware.
\<close>

definition rateLimit :: "int \<Rightarrow> nat \<Rightarrow> int \<Rightarrow> string \<Rightarrow> limiter_state \<Rightarrow> bool \<times> limiter_state" where
  "rateLimit windowMs max_hits now clientKey st =
     (let (n, st') = hit windowMs now clientKey st in (n \<le> max_hits, st'))"

text \<open>
  Modelled from the spec: the delay of the progressive slowdown (the middleware
  \<open>slowDown\<close> returns, not under src/). Once the count exceeds \<open>delayAfter\<close> the
  response is delayed by what the \<open>delayMs\<close> option computes from the count,
  capped at \<open>maxDelayMs\<close>; up to the threshold there is no delay. It never
  rejects.
\<close>

definition slowDown_delay :: "nat \<Rightarrow> (nat \<Rightarrow> int) \<Rightarrow> int \<Rightarrow> nat \<Rightarrow> int" where
  "slowDown_delay delayAfter delayFn maxDelay n =
     (if delayAfter < n then min (delayFn n) maxDelay else 0)"

text \<open>
  Modelled from the spec: the slowdown middleware itself (not under src/), which
  counts the request and passes it on with the delay of its count.
\<close>

definition slowDown ::
  "int \<Rightarrow> nat \<Rightarrow> (nat \<Rightarrow> int) \<Rightarrow> int \<Rightarrow> int \<Rightarrow> string \<Rightarrow> limiter_state \<Rightarrow> int \<times> limiter_state" where
  "slowDown windowMs delayAfter delayFn maxDelay now clientKey st =
     (let (n, st') = hit windowMs now clientKey st
      in (slowDown_delay delayAfter delayFn maxDelay n, st'))"

text \<open>The three limiters as src/app.js configures them (lines 89-94, 107-118, 122-133).\<close>

definition delayMs :: "nat \<Rightarrow> int" where
  "delayMs hits = (int hits - int spdMaxRequests) * 100"

text \<open>The delay \<open>speedLimiter\<close> gives to the request that brings the count to \<open>hits\<close>.\<close>

definition speedLimiter_delay :: "nat \<Rightarrow> int" where
  "speedLimiter_delay hits = slowDown_delay spdMaxRequests delayMs (spdMaxDelayTime * 1000) hits"

definition speedLimiter :: "int \<Rightarrow> string \<Rightarrow> limiter_state \<Rightarrow> int \<times> limiter_state" where
  "speedLimiter =
     slowDown (spdTimeWindow * 60 * 1000) spdMaxRequests delayMs (spdMaxDelayTime * 1000)"

definition encLimiter :: "int \<Rightarrow> string \<Rightarrow> limiter_state \<Rightarrow> bool \<times> limiter_state" where
  "encLimiter = rateLimit (encTimeWindow * 60 * 1000) encMaxRequests"

definition reqLimiter :: "int \<Rightarrow> string \<Rightarrow> limiter_state \<Rightarrow> bool \<times> limiter_state" where
  "reqLimiter = rateLimit (reqTimeWindow * 60 * 1000) reqMaxRequests"

subsection \<open>The server: middleware order and routes\<close>

text \<open>
  The state of the process: one counter set for each limiter, the table, and how
  many identifiers \<open>nanoid\<close> has handed out.
\<close>

record server =
  reqHits :: limiter_state
  spdHits :: limiter_state
  encHits :: limiter_state
  notelock :: table
  drawn :: nat

text \<open>
  A request that reaches the limiters: \<open>GET /\<close> with its \<open>n\<close> parameter,
  \<open>POST /encrypt\<close> with the Host header and the body, or anything else
  (answered by \<open>app.all\<close>). Files under \<open>views\<close> are served by \<open>express.static\<close>
  before the limiters and are not requests in this sense.
\<close>

datatype request = Get_root jsval | Post_encrypt string reqbody | Other_route

text \<open>
  Middleware runs in the order of registration: \<open>app.use(reqLimiter)\<close>,
  \<open>app.use(speedLimiter)\<close> (lines 175-176), then the route, where \<open>/encrypt\<close> has
  \<open>encLimiter\<close> in front of its handler (line 294). A rejecting limiter answers and
  the chain stops; the slowdown waits and then continues, so what follows it runs
  at \<open>now + delay\<close>. The result is the response, the delay the request incurred
  and the state afterwards; \<open>None\<close> is a request whose handler never completes.
\<close>

definition handle_request ::
  "(nat \<Rightarrow> string) \<Rightarrow> int \<Rightarrow> string \<Rightarrow> request \<Rightarrow> server \<Rightarrow> (response \<times> int \<times> server) option" where
  "handle_request nanoid now client req s =
     (let (pass, rh) = reqLimiter now client (reqHits s);
          s1 = s\<lparr>reqHits := rh\<rparr>
      in if \<not> pass then Some (Render_note_error_requests, 0, s1)
         else
           (let (delay, sh) = speedLimiter now client (spdHits s1);
                s2 = s1\<lparr>spdHits := sh\<rparr>;
                later = now + delay
            in case req of
                 Post_encrypt host note \<Rightarrow>
                   (let (pass', eh) = encLimiter later client (encHits s2);
                        s3 = s2\<lparr>encHits := eh\<rparr>
                    in if \<not> pass' then Some (Json_error_encryption, delay, s3)
                       else
                         (case post_encrypt nanoid (drawn s3) host note later (notelock s3) of
                            None \<Rightarrow> None
                          | Some (r, i', db') \<Rightarrow>
                              Some (r, delay, s3\<lparr>notelock := db', drawn := i'\<rparr>)))
               | Get_root n \<Rightarrow>
                   (let (r, db') = get_root n (notelock s2)
                    in Some (r, delay, s2\<lparr>notelock := db'\<rparr>))
               | Other_route \<Rightarrow> Some (Redirect_root, delay, s2)))"

text \<open>A sequence of requests, each with its arrival time and client, one after the other.\<close>

fun handle_requests ::
  "(nat \<Rightarrow> string) \<Rightarrow> server \<Rightarrow> (int \<times> string \<times> request) list \<Rightarrow>
     ((response \<times> int) list \<times> server) option" where
  "handle_requests nanoid s [] = Some ([], s)"
| "handle_requests nanoid s ((now, client, req) # rest) =
     (case handle_request nanoid now client req s of
        None \<Rightarrow> None
      | Some (r, delay, s') \<Rightarrow>
          (case handle_requests nanoid s' rest of
             None \<Rightarrow> None
           | Some (rs, s'') \<Rightarrow> Some ((r, delay) # rs, s'')))"

definition startup :: server where
  "startup = \<lparr>reqHits = (\<lambda>c. None), spdHits = (\<lambda>c. None), encHits = (\<lambda>c. None),
              notelock = [], drawn = 0\<rparr>"

text \<open>
  One middleware facing a sequence of requests, each with its arrival time and its
  client: the outcome of every request, tagged with its client, and the state
  afterwards. \<open>outcomes_of c\<close> picks the outcomes of client \<open>c\<close>, in order.
\<close>

fun middleware_run ::
  "(int \<Rightarrow> string \<Rightarrow> limiter_state \<Rightarrow> 'a \<times> limiter_state) \<Rightarrow> limiter_state \<Rightarrow>
     (int \<times> string) list \<Rightarrow> (string \<times> 'a) list \<times> limiter_state" where
  "middleware_run mw st [] = ([], st)"
| "middleware_run mw st ((t, c) # rest) =
     (let (out, st') = mw t c st;
          (outs, st'') = middleware_run mw st' rest
      in ((c, out) # outs, st''))"

definition outcomes_of :: "string \<Rightarrow> (string \<times> 'a) list \<Rightarrow> 'a list" where
  "outcomes_of c outs = map snd (filter (\<lambda>p. fst p = c) outs)"

text \<open>The arrival times of the requests of client \<open>c\<close> in a sequence.\<close>

definition times_of :: "string \<Rightarrow> (int \<times> string) list \<Rightarrow> int list" where
  "times_of c reqs = map fst (filter (\<lambda>r. snd r = c) reqs)"

section \<open>Notions used to state the properties\<close>

text \<open>The key the read path looks up for a supplied string (line 321).\<close>

definition lookup_key :: "string \<Rightarrow> string" where
  "lookup_key n = substring n 0 21"

definition no_row :: "string \<Rightarrow> table \<Rightarrow> bool" where
  "no_row k db = list_all (\<lambda>r. uuid r \<noteq> k) db"






text \<open>
  Identifier sources for concrete runs: one that hands out the same identifier
  forever, one that hands out a given list and then a fixed identifier, and one
  that numbers its identifiers.
\<close>

definition constant_ids :: "string \<Rightarrow> nat \<Rightarrow> string" where
  "constant_ids s i = s"

definition ids_from_list :: "string list \<Rightarrow> string \<Rightarrow> nat \<Rightarrow> string" where
  "ids_from_list xs s i = (if i < length xs then xs ! i else s)"

text \<open>A source of pairwise different identifiers of 21 characters (for \<open>i < 10000\<close>).\<close>

definition numbered_ids :: "nat \<Rightarrow> string" where
  "numbered_ids i = ''note-identifier-_'' @ pad 4 i"

text \<open>
  The three ways in which the identifier of a request \<open>n\<close> can be absent, each
  with the condition on the table beforehand and the table in which the read then
  happens: it was never issued (no row has it); it was consumed (a read of \<open>n\<close>
  found the note); it expired (it had rows, and the sweep at \<open>now\<close> found every one
  of them older than its threshold).
\<close>

datatype cause = Never_issued | Already_consumed | Already_expired int

fun cause_holds :: "cause \<Rightarrow> string \<Rightarrow> table \<Rightarrow> bool" where
  "cause_holds Never_issued n db = no_row (lookup_key n) db"
| "cause_holds Already_consumed n db = truthy (dbFindData (lookup_key n) db)"
| "cause_holds (Already_expired now) n db =
     (case sqlite_datetime_hours_ago now noteLife of
        None \<Rightarrow> False
      | Some threshold \<Rightarrow>
          \<not> no_row (lookup_key n) db \<and>
          list_all (\<lambda>r. uuid r \<noteq> lookup_key n \<or> text_less (created r) threshold) db)"

fun table_after :: "cause \<Rightarrow> string \<Rightarrow> table \<Rightarrow> table" where
  "table_after Never_issued n db = db"
| "table_after Already_consumed n db = snd (get_root (Str n) db)"
| "table_after (Already_expired now) n db = dbExpireValue now db"

section \<open>Facts about the table\<close>

lemma substring_from_0: "substring s 0 n = take n s"
  by (simp add: substring_def)

lemma dbFindData_no_row: "no_row k db \<Longrightarrow> dbFindData k db = JFalse"
  by (induction db) (auto simp: no_row_def dbFindData_def)

lemma no_row_dbDeleteValue: "no_row k (dbDeleteValue k db)"
  by (simp add: no_row_def dbDeleteValue_def list_all_iff)




lemma dbFindData_first:
  "no_row (uuid r) before \<Longrightarrow>
   dbFindData (uuid r) (before @ r # after) = column_value (note_col r)"
  by (induction before) (auto simp: no_row_def dbFindData_def)

lemma get_root_no_row:
  "no_row (lookup_key n) db \<Longrightarrow> n \<noteq> [] \<Longrightarrow> get_root (Str n) db = (Render_note_not_found, db)"
  by (simp add: lookup_key_def dbFindData_no_row)

lemma lookup_key_idem: "lookup_key (lookup_key n) = lookup_key n"
  by (simp add: lookup_key_def substring_from_0)

lemma get_root_found:
  "truthy (dbFindData (lookup_key n) db) \<Longrightarrow> n \<noteq> [] \<Longrightarrow>
   get_root (Str n) db =
     (Render_note (dbFindData (lookup_key n) db), dbDeleteValue (lookup_key n) db)"
  by (simp add: lookup_key_def Let_def)

lemma expired_rows_swept:
  "sqlite_datetime_hours_ago now noteLife = Some threshold \<Longrightarrow>
   list_all (\<lambda>r. uuid r \<noteq> k \<or> text_less (created r) threshold) db \<Longrightarrow>
   no_row k (dbExpireValue now db)"
  by (auto simp: dbExpireValue_def no_row_def list_all_iff)

lemma cause_no_row:
  assumes "cause_holds c n db" and "n \<noteq> []"
  shows "no_row (lookup_key n) (table_after c n db)"
proof (cases c)
  case Never_issued
  with assms show ?thesis by simp
next
  case Already_consumed
  with assms show ?thesis
    by (simp add: get_root_found no_row_dbDeleteValue del: get_root.simps)
next
  case (Already_expired now)
  with assms show ?thesis
    by (auto split: option.splits intro: expired_rows_swept)
qed






lemma dbDeleteValue_fresh: "no_row k db \<Longrightarrow> dbDeleteValue k db = db"
  by (simp add: dbDeleteValue_def no_row_def list_all_iff)

lemma stamp_2024: "getTimeStamp 1704067200000 = ''2024-01-01T00:00:00.000Z''"
  by code_simp

lemma threshold_2024_01_03:
  "sqlite_datetime_hours_ago 1704326400000 noteLife = Some ''2024-01-03 00:00:00''"
  by code_simp











section \<open>Facts about the identifier loop\<close>

lemma post_encrypt_loop_free:
  "\<not> truthy (dbFindData (nanoid i) db) \<Longrightarrow>
   post_encrypt_loop nanoid i body now db =
     Some (Suc i, nanoid i, add_note (nanoid i) body now db)"
  by (subst post_encrypt_loop.simps) (simp add: Let_def)

lemma post_encrypt_loop_collision:
  "truthy (dbFindData (nanoid i) db) \<Longrightarrow>
   post_encrypt_loop nanoid i body now db = post_encrypt_loop nanoid (Suc i) body now db"
  by (subst post_encrypt_loop.simps) (simp add: Let_def)

lemma post_encrypt_loop_after:
  "(\<forall>j<k. truthy (dbFindData (nanoid (i + j)) db)) \<Longrightarrow>
   \<not> truthy (dbFindData (nanoid (i + k)) db) \<Longrightarrow>
   post_encrypt_loop nanoid i body now db =
     Some (Suc (i + k), nanoid (i + k), add_note (nanoid (i + k)) body now db)"
proof (induction k arbitrary: i)
  case 0
  then show ?case by (simp add: post_encrypt_loop_free)
next
  case (Suc k)
  have c: "truthy (dbFindData (nanoid i) db)"
    using Suc.prems(1) [rule_format, of 0] by simp
  have "\<forall>j<k. truthy (dbFindData (nanoid (Suc i + j)) db)"
    using Suc.prems(1) by (metis Suc_less_eq add_Suc_shift)
  moreover have "\<not> truthy (dbFindData (nanoid (Suc i + k)) db)"
    using Suc.prems(2) by simp
  ultimately show ?case
    using Suc.IH [of "Suc i"] c by (simp add: post_encrypt_loop_collision)
qed

lemma post_encrypt_loop_Some:
  assumes "post_encrypt_loop nanoid i body now db = Some y"
  shows "\<exists>k. \<not> truthy (dbFindData (nanoid (i + k)) db) \<and>
       y = (Suc (i + k), nanoid (i + k), add_note (nanoid (i + k)) body now db)"
  using assms
proof (induct rule: post_encrypt_loop.raw_induct [rotated 1, consumes 1])
  case (1 loop nanoid i body now db y)
  show ?case
  proof (cases "truthy (dbFindData (nanoid i) db)")
    case False
    with 1(2) have "y = (Suc (i + 0), nanoid (i + 0), add_note (nanoid (i + 0)) body now db)"
      by (simp add: Let_def)
    with False show ?thesis by (metis add.right_neutral)
  next
    case True
    with 1(2) have "loop nanoid (Suc i) body now db = Some y" by (simp add: Let_def)
    from 1(1) [OF this] obtain k where
      "\<not> truthy (dbFindData (nanoid (Suc i + k)) db)"
      "y = (Suc (Suc i + k), nanoid (Suc i + k), add_note (nanoid (Suc i + k)) body now db)"
      by blast
    then show ?thesis
      by (intro exI [of _ "Suc k"]) simp
  qed
qed

lemma post_encrypt_loop_diverges:
  "(\<forall>j. truthy (dbFindData (nanoid (i + j)) db)) \<Longrightarrow>
   post_encrypt_loop nanoid i body now db = None"
  using post_encrypt_loop_Some [of nanoid i body now db]
  by (cases "post_encrypt_loop nanoid i body now db") auto



section \<open>Exactly-once retrieval\<close>




section \<open>Absent identifiers are indistinguishable\<close>

text \<open>
  C4. Two reads whose identifiers are absent, each for any of the three causes
  (never issued, already consumed, already expired and swept), get the same
  response, the not-found page, and leave the table unchanged.
\<close>

theorem not_found_same_for_all_causes:
  assumes "n1 \<noteq> []" and "n2 \<noteq> []"
    and "cause_holds c1 n1 db1" and "cause_holds c2 n2 db2"
  shows "fst (get_root (Str n1) (table_after c1 n1 db1)) =
           fst (get_root (Str n2) (table_after c2 n2 db2)) \<and>
         get_root (Str n1) (table_after c1 n1 db1) =
           (Render_note_not_found, table_after c1 n1 db1)"
proof -
  have "get_root (Str n1) (table_after c1 n1 db1) =
          (Render_note_not_found, table_after c1 n1 db1)"
    using assms(1,3) by (intro get_root_no_row cause_no_row)
  moreover have "get_root (Str n2) (table_after c2 n2 db2) =
          (Render_note_not_found, table_after c2 n2 db2)"
    using assms(2,4) by (intro get_root_no_row cause_no_row)
  ultimately show ?thesis by simp
qed

theorem not_found_same_for_all_causes_witness:
  "cause_holds Already_consumed ''V1StGXR8_Z5jdHi6B-myT#tail''
     [\<lparr>uuid = ''V1StGXR8_Z5jdHi6B-myT'', note_col = Some ''abc'',
       created = ''2024-01-01T00:00:00.000Z''\<rparr>] \<and>
   cause_holds (Already_expired 1704326400000) ''Uakgb_J5m9g-0JDMbcJqL''
     [\<lparr>uuid = ''Uakgb_J5m9g-0JDMbcJqL'', note_col = Some ''xyz'',
       created = ''2024-01-01T00:00:00.000Z''\<rparr>] \<and>
   fst (get_root (Str ''V1StGXR8_Z5jdHi6B-myT#tail'')
     (table_after Already_consumed ''V1StGXR8_Z5jdHi6B-myT#tail''
       [\<lparr>uuid = ''V1StGXR8_Z5jdHi6B-myT'', note_col = Some ''abc'',
         created = ''2024-01-01T00:00:00.000Z''\<rparr>])) =
   fst (get_root (Str ''Uakgb_J5m9g-0JDMbcJqL'')
     (table_after (Already_expired 1704326400000) ''Uakgb_J5m9g-0JDMbcJqL''
       [\<lparr>uuid = ''Uakgb_J5m9g-0JDMbcJqL'', note_col = Some ''xyz'',
         created = ''2024-01-01T00:00:00.000Z''\<rparr>]))"
proof -
  have n1: "''V1StGXR8_Z5jdHi6B-myT#tail'' \<noteq> []" and n2: "''Uakgb_J5m9g-0JDMbcJqL'' \<noteq> []"
    by simp_all
  have c1: "cause_holds Already_consumed ''V1StGXR8_Z5jdHi6B-myT#tail''
     [\<lparr>uuid = ''V1StGXR8_Z5jdHi6B-myT'', note_col = Some ''abc'',
       created = ''2024-01-01T00:00:00.000Z''\<rparr>]"
    by (simp add: lookup_key_def substring_def dbFindData_def)
  have c2: "cause_holds (Already_expired 1704326400000) ''Uakgb_J5m9g-0JDMbcJqL''
     [\<lparr>uuid = ''Uakgb_J5m9g-0JDMbcJqL'', note_col = Some ''xyz'',
       created = ''2024-01-01T00:00:00.000Z''\<rparr>]"
    by (simp add: threshold_2024_01_03 lookup_key_def substring_def no_row_def)
  from not_found_same_for_all_causes [OF n1 n2 c1 c2] c1 c2 show ?thesis by blast
qed

section \<open>The collision loop\<close>

text \<open>
  C2, as the code has it. The loop has no bound and no error exit: when the first
  \<open>k\<close> identifiers drawn collide and the next one does not, it returns after
  \<open>k + 1\<close> draws, whatever \<open>k\<close> is, with what line 302 does for that identifier (the
  insert, or the TypeError of a request without a body); when every identifier
  drawn collides it never returns.
\<close>

theorem collision_loop_unbounded:
  "((\<forall>j<k. truthy (dbFindData (nanoid (i + j)) db)) \<and>
      \<not> truthy (dbFindData (nanoid (i + k)) db) \<longrightarrow>
      post_encrypt_loop nanoid i body now db =
        Some (Suc (i + k), nanoid (i + k), add_note (nanoid (i + k)) body now db)) \<and>
   ((\<forall>j. truthy (dbFindData (nanoid (i + j)) db)) \<longrightarrow>
      post_encrypt_loop nanoid i body now db = None)"
proof (intro conjI impI)
  assume "(\<forall>j<k. truthy (dbFindData (nanoid (i + j)) db)) \<and>
      \<not> truthy (dbFindData (nanoid (i + k)) db)"
  then have "\<forall>j<k. truthy (dbFindData (nanoid (i + j)) db)"
    and "\<not> truthy (dbFindData (nanoid (i + k)) db)"
    by simp_all
  then show "post_encrypt_loop nanoid i body now db =
        Some (Suc (i + k), nanoid (i + k), add_note (nanoid (i + k)) body now db)"
    by (rule post_encrypt_loop_after [of k nanoid i db body now])
next
  assume "\<forall>j. truthy (dbFindData (nanoid (i + j)) db)"
  then show "post_encrypt_loop nanoid i body now db = None"
    by (rule post_encrypt_loop_diverges [of nanoid i db body now])
qed

theorem collision_loop_unbounded_witness:
  "post_encrypt_loop
     (ids_from_list (replicate 3 ''V1StGXR8_Z5jdHi6B-myT'')
        ''Uakgb_J5m9g-0JDMbcJqL'')
     0 (Body_form (Str ''xyz'')) 1704067200000
     [\<lparr>uuid = ''V1StGXR8_Z5jdHi6B-myT'', note_col = Some ''abc'',
       created = ''2024-01-01T00:00:00.000Z''\<rparr>] =
     Some (4, ''Uakgb_J5m9g-0JDMbcJqL'',
       Inr [\<lparr>uuid = ''V1StGXR8_Z5jdHi6B-myT'', note_col = Some ''abc'',
         created = ''2024-01-01T00:00:00.000Z''\<rparr>,
        \<lparr>uuid = ''Uakgb_J5m9g-0JDMbcJqL'', note_col = Some ''xyz'',
         created = ''2024-01-01T00:00:00.000Z''\<rparr>]) \<and>
   post_encrypt_loop (constant_ids ''V1StGXR8_Z5jdHi6B-myT'') 0 (Body_form (Str ''xyz''))
     1704067200000
     [\<lparr>uuid = ''V1StGXR8_Z5jdHi6B-myT'', note_col = Some ''abc'',
       created = ''2024-01-01T00:00:00.000Z''\<rparr>] = None"
proof -
  let ?G = "ids_from_list
      (replicate 3 ''V1StGXR8_Z5jdHi6B-myT'')
      ''Uakgb_J5m9g-0JDMbcJqL''"
  let ?C = "constant_ids ''V1StGXR8_Z5jdHi6B-myT''"
  let ?db = "[\<lparr>uuid = ''V1StGXR8_Z5jdHi6B-myT'', note_col = Some ''abc'',
       created = ''2024-01-01T00:00:00.000Z''\<rparr>]"
  let ?b = "Body_form (Str ''xyz'')"
  have taken: "truthy (dbFindData ''V1StGXR8_Z5jdHi6B-myT'' ?db)"
    and free: "\<not> truthy (dbFindData ''Uakgb_J5m9g-0JDMbcJqL'' ?db)"
    by (simp_all add: dbFindData_def)
  have g: "?G (0 + j) = ''V1StGXR8_Z5jdHi6B-myT''" if "j < 3" for j
    using that by (simp add: ids_from_list_def)
  have g3: "?G (0 + 3) = ''Uakgb_J5m9g-0JDMbcJqL''"
    by (simp add: ids_from_list_def)
  have h1: "\<forall>j<3. truthy (dbFindData (?G (0 + j)) ?db)"
    using g taken by metis
  have h2: "\<not> truthy (dbFindData (?G (0 + 3)) ?db)"
    using g3 free by metis
  have h3: "\<forall>j. truthy (dbFindData (?C (0 + j)) ?db)"
    using taken by (simp add: constant_ids_def)
  have r1: "post_encrypt_loop ?G 0 ?b 1704067200000 ?db =
      Some (Suc (0 + 3), ?G (0 + 3), add_note (?G (0 + 3)) ?b 1704067200000 ?db)"
    using collision_loop_unbounded [of 3 ?G 0 ?db ?b 1704067200000] h1 h2
    by blast
  have r2: "post_encrypt_loop ?C 0 ?b 1704067200000 ?db = None"
    using collision_loop_unbounded [of 0 ?C 0 ?db ?b 1704067200000] h3
    by blast
  have "add_note ''Uakgb_J5m9g-0JDMbcJqL'' ?b 1704067200000 ?db =
      Inr (?db @ [\<lparr>uuid = ''Uakgb_J5m9g-0JDMbcJqL'', note_col = Some ''xyz'',
         created = ''2024-01-01T00:00:00.000Z''\<rparr>])"
    by (simp add: dbAddData_def stamp_2024)
  with r1 r2 g3 show ?thesis by (simp del: replicate.simps replicate_Suc)
qed

text \<open>
  C2 as stated promises a bounded number of attempts and an ExhaustedRetries error.
  With a table that holds the only identifier the source hands out, the request
  never completes.
\<close>

theorem collision_loop_counterexample:
  "post_encrypt (constant_ids ''V1StGXR8_Z5jdHi6B-myT'') 0 ''notelock.example''
     (Body_form (Str ''xyz'')) 1704067200000
     [\<lparr>uuid = ''V1StGXR8_Z5jdHi6B-myT'', note_col = Some ''abc'',
       created = ''2024-01-01T00:00:00.000Z''\<rparr>] = None"
  using post_encrypt_loop_diverges [of "constant_ids ''V1StGXR8_Z5jdHi6B-myT''" 0
      "[\<lparr>uuid = ''V1StGXR8_Z5jdHi6B-myT'', note_col = Some ''abc'',
       created = ''2024-01-01T00:00:00.000Z''\<rparr>]" "Body_form (Str ''xyz'')" 1704067200000]
  by (simp add: post_encrypt_def constant_ids_def dbFindData_def)

section \<open>Submitting an empty or missing blob\<close>




section \<open>The sweep\<close>

lemma threshold_25h:
  "sqlite_datetime_hours_ago 1704157200000 noteLife = Some ''2024-01-01 01:00:00''"
  by code_simp

lemma threshold_before_48h:
  "sqlite_datetime_hours_ago 1704239999000 noteLife = Some ''2024-01-01 23:59:59''"
  by code_simp

lemma threshold_48h:
  "sqlite_datetime_hours_ago 1704240000000 noteLife = Some ''2024-01-02 00:00:00''"
  by code_simp

text \<open>
  C5. The sweep is meant to delete the rows older than 24 hours (the comments of
  lines 249, 253 and 260 say so, and so does the spec), and it does not. A note is
  created on 2024-01-01 at 00:00:00 UTC and never read; its row is stamped
  \<open>2024-01-01T00:00:00.000Z\<close>. The tick 25 hours later computes the threshold
  \<open>2024-01-01 01:00:00\<close> and compares the two as text: they agree on the date, and
  then \<open>T\<close> is greater than the space, so the row is not older and stays. A read
  after that tick still renders the note. The row stays at every tick up to
  47 hours 59 minutes 59 seconds after its creation and goes only at the tick
  48 hours after it, when the threshold's date has passed the row's date.
\<close>

theorem sweep_keeps_note_aged_25_hours:
  "getTimeStamp 1704067200000 = ''2024-01-01T00:00:00.000Z'' \<and>
   sqlite_datetime_hours_ago (1704067200000 + 25 * 3600000) noteLife =
     Some ''2024-01-01 01:00:00'' \<and>
   \<not> text_less ''2024-01-01T00:00:00.000Z'' ''2024-01-01 01:00:00'' \<and>
   dbExpireValue (1704067200000 + 25 * 3600000)
     [\<lparr>uuid = ''V1StGXR8_Z5jdHi6B-myT'', note_col = Some ''abc'',
       created = ''2024-01-01T00:00:00.000Z''\<rparr>] =
     [\<lparr>uuid = ''V1StGXR8_Z5jdHi6B-myT'', note_col = Some ''abc'',
       created = ''2024-01-01T00:00:00.000Z''\<rparr>] \<and>
   get_root (Str ''V1StGXR8_Z5jdHi6B-myT'')
     (dbExpireValue (1704067200000 + 25 * 3600000)
       [\<lparr>uuid = ''V1StGXR8_Z5jdHi6B-myT'', note_col = Some ''abc'',
         created = ''2024-01-01T00:00:00.000Z''\<rparr>]) =
     (Render_note (Str ''abc''), []) \<and>
   dbExpireValue (1704067200000 + 48 * 3600000 - 1000)
     [\<lparr>uuid = ''V1StGXR8_Z5jdHi6B-myT'', note_col = Some ''abc'',
       created = ''2024-01-01T00:00:00.000Z''\<rparr>] =
     [\<lparr>uuid = ''V1StGXR8_Z5jdHi6B-myT'', note_col = Some ''abc'',
       created = ''2024-01-01T00:00:00.000Z''\<rparr>] \<and>
   dbExpireValue (1704067200000 + 48 * 3600000)
     [\<lparr>uuid = ''V1StGXR8_Z5jdHi6B-myT'', note_col = Some ''abc'',
       created = ''2024-01-01T00:00:00.000Z''\<rparr>] = []"
  by (simp add: stamp_2024 dbExpireValue_def threshold_25h threshold_before_48h threshold_48h
      substring_def dbFindData_def dbDeleteValue_def)

section \<open>The key of the read path\<close>

lemma get_root_same_key:
  "lookup_key n = lookup_key n' \<Longrightarrow> n \<noteq> [] \<Longrightarrow> n' \<noteq> [] \<Longrightarrow>
   get_root (Str n) db = get_root (Str n') db"
  by (simp add: lookup_key_def)

text \<open>
  C9. Take a record with a non-empty note that the lookup of its identifier reaches
  (no row before it carries the same identifier). A read with any string whose
  first 21 characters are that identifier renders the note and deletes the rows of
  that identifier; and two strings with the same first 21 characters get the same
  answer from any table.
\<close>

theorem read_path_uses_first_21_characters:
  assumes "db = before @ r # after" and "no_row (uuid r) before"
    and "note_col r = Some c" and "c \<noteq> []"
    and "uuid r \<noteq> []" and "take 21 n = uuid r"
  shows "get_root (Str n) db = (Render_note (Str c), dbDeleteValue (uuid r) db) \<and>
         (take 21 n' = take 21 n \<longrightarrow> get_root (Str n') db' = get_root (Str n) db')"
proof -
  from assms(5,6) have n: "n \<noteq> []" by auto
  have key: "lookup_key n = uuid r"
    using assms(6) by (simp add: lookup_key_def substring_from_0)
  have "dbFindData (lookup_key n) db = Str c"
    using dbFindData_first [OF assms(2), of after] assms(1,3) key by simp
  with assms(4) n key
  have first: "get_root (Str n) db = (Render_note (Str c), dbDeleteValue (uuid r) db)"
    using get_root_found [of n db] by simp
  have second: "get_root (Str n') db' = get_root (Str n) db'" if "take 21 n' = take 21 n"
  proof -
    from that assms(5,6) have "n' \<noteq> []" by auto
    moreover from that have "lookup_key n' = lookup_key n"
      by (simp add: lookup_key_def substring_from_0)
    ultimately show ?thesis using n by (rule_tac get_root_same_key)
  qed
  from first second show ?thesis by blast
qed

theorem read_path_uses_first_21_characters_witness:
  "get_root (Str ''V1StGXR8_Z5jdHi6B-myT#and-more'')
     [\<lparr>uuid = ''Uakgb_J5m9g-0JDMbcJqL'', note_col = Some ''xyz'',
       created = ''2024-01-01T00:00:00.000Z''\<rparr>,
      \<lparr>uuid = ''V1StGXR8_Z5jdHi6B-myT'', note_col = Some ''abc'',
       created = ''2024-01-01T00:00:00.000Z''\<rparr>] =
     (Render_note (Str ''abc''),
      [\<lparr>uuid = ''Uakgb_J5m9g-0JDMbcJqL'', note_col = Some ''xyz'',
        created = ''2024-01-01T00:00:00.000Z''\<rparr>]) \<and>
   get_root (Str ''V1StGXR8_Z5jdHi6B-myT'')
     [\<lparr>uuid = ''V1StGXR8_Z5jdHi6B-myT'', note_col = Some ''abc'',
       created = ''2024-01-01T00:00:00.000Z''\<rparr>] =
   get_root (Str ''V1StGXR8_Z5jdHi6B-myT#and-more'')
     [\<lparr>uuid = ''V1StGXR8_Z5jdHi6B-myT'', note_col = Some ''abc'',
       created = ''2024-01-01T00:00:00.000Z''\<rparr>]"
proof -
  let ?r = "\<lparr>uuid = ''V1StGXR8_Z5jdHi6B-myT'', note_col = Some ''abc'',
       created = ''2024-01-01T00:00:00.000Z''\<rparr>"
  let ?q = "\<lparr>uuid = ''Uakgb_J5m9g-0JDMbcJqL'', note_col = Some ''xyz'',
       created = ''2024-01-01T00:00:00.000Z''\<rparr>"
  have h1: "[?q, ?r] = [?q] @ ?r # []" by simp
  have h2: "no_row (uuid ?r) [?q]" by (simp add: no_row_def)
  have h3: "note_col ?r = Some ''abc''" by simp
  have h4: "''abc'' \<noteq> []" by simp
  have h5: "uuid ?r \<noteq> []" by simp
  have h6: "take 21 ''V1StGXR8_Z5jdHi6B-myT#and-more'' = uuid ?r" by simp
  have h7: "take 21 ''V1StGXR8_Z5jdHi6B-myT'' = take 21 ''V1StGXR8_Z5jdHi6B-myT#and-more''"
    by simp
  have del: "dbDeleteValue (uuid ?r) [?q, ?r] = [?q]" by (simp add: dbDeleteValue_def)
  from read_path_uses_first_21_characters [OF h1 h2 h3 h4 h5 h6,
      of "''V1StGXR8_Z5jdHi6B-myT''" "[?r]"] h7 del
  show ?thesis by (simp del: get_root.simps)
qed

section \<open>Records with an empty note\<close>



section \<open>The hard limiters\<close>

lemma hit_open:
  "st client = None \<Longrightarrow>
   hit W now client st = (1, st(client := Some \<lparr>windowStart = now, count = 1\<rparr>))"
  by (simp add: hit_def current_window_def)

lemma hit_elapsed:
  "st client = Some w \<Longrightarrow> windowStart w + W < now \<Longrightarrow>
   hit W now client st = (1, st(client := Some \<lparr>windowStart = now, count = 1\<rparr>))"
  by (simp add: hit_def current_window_def)

lemma hit_within:
  "st client = Some w \<Longrightarrow> now \<le> windowStart w + W \<Longrightarrow>
   hit W now client st = (Suc (count w), st(client := Some (w\<lparr>count := Suc (count w)\<rparr>)))"
  by (simp add: hit_def current_window_def Let_def)

lemma hit_other: "c' \<noteq> c \<Longrightarrow> snd (hit W now c' st) c = st c"
  by (simp add: hit_def Let_def)

lemma middleware_run_append:
  "middleware_run mw st (xs @ ys) =
     (let (a, st') = middleware_run mw st xs; (b, st'') = middleware_run mw st' ys
      in (a @ b, st''))"
  by (induction xs arbitrary: st) (auto simp: Let_def split: prod.splits)

lemma outcomes_of_append: "outcomes_of c (xs @ ys) = outcomes_of c xs @ outcomes_of c ys"
  by (simp add: outcomes_of_def)

lemma middleware_run_map:
  assumes "\<And>t c st. mw' t c st = (f (fst (mw t c st)), snd (mw t c st))"
  shows "middleware_run mw' st reqs =
           (map (\<lambda>p. (fst p, f (snd p))) (fst (middleware_run mw st reqs)),
            snd (middleware_run mw st reqs))"
  by (induction reqs arbitrary: st) (auto simp: assms Let_def split: prod.splits)

lemma outcomes_of_map:
  "outcomes_of c (map (\<lambda>p. (fst p, f (snd p))) outs) = map f (outcomes_of c outs)"
  by (induction outs) (simp_all add: outcomes_of_def)

lemma run_Cons:
  "fst (middleware_run mw st ((t, c) # rest)) =
     (c, fst (mw t c st)) # fst (middleware_run mw (snd (mw t c st)) rest)"
  "snd (middleware_run mw st ((t, c) # rest)) =
     snd (middleware_run mw (snd (mw t c st)) rest)"
  by (simp_all add: Let_def split: prod.splits)

lemma counts_of_others:
  "list_all (\<lambda>r. snd r \<noteq> c) reqs \<Longrightarrow>
   outcomes_of c (fst (middleware_run (hit W) st reqs)) = [] \<and>
   snd (middleware_run (hit W) st reqs) c = st c"
proof (induction reqs arbitrary: st)
  case Nil
  then show ?case by (simp add: outcomes_of_def)
next
  case (Cons r reqs)
  obtain t c' where r: "r = (t, c')" by (cases r)
  with Cons.prems have ne: "c' \<noteq> c" and rest: "list_all (\<lambda>r. snd r \<noteq> c) reqs" by simp_all
  from Cons.IH [OF rest, of "snd (hit W t c' st)"] hit_other [OF ne, of W t st] ne
  show ?case unfolding r run_Cons by (simp add: outcomes_of_def)
qed

lemma counts_within:
  "st c = Some w \<Longrightarrow> \<forall>t\<in>set (times_of c reqs). t \<le> windowStart w + W \<Longrightarrow>
   outcomes_of c (fst (middleware_run (hit W) st reqs)) =
     map (\<lambda>j. count w + j) [1..<Suc (length (times_of c reqs))] \<and>
   snd (middleware_run (hit W) st reqs) c =
     Some (w\<lparr>count := count w + length (times_of c reqs)\<rparr>)"
proof (induction reqs arbitrary: st w)
  case Nil
  then show ?case by (simp add: outcomes_of_def times_of_def)
next
  case (Cons r reqs)
  obtain t c' where r: "r = (t, c')" by (cases r)
  let ?st = "snd (hit W t c' st)"
  show ?case
  proof (cases "c' = c")
    case False
    with hit_other [of c' c W t st] have st': "?st c = Some w" using Cons.prems(1) by simp
    from Cons.prems(2) r False
    have "\<forall>t\<in>set (times_of c reqs). t \<le> windowStart w + W" by (simp add: times_of_def)
    with st' have "outcomes_of c (fst (middleware_run (hit W) ?st reqs)) =
        map (\<lambda>j. count w + j) [1..<Suc (length (times_of c reqs))] \<and>
      snd (middleware_run (hit W) ?st reqs) c =
        Some (w\<lparr>count := count w + length (times_of c reqs)\<rparr>)"
      by (rule Cons.IH)
    with False show ?thesis
      unfolding r run_Cons by (simp add: outcomes_of_def times_of_def)
  next
    case True
    let ?w = "w\<lparr>count := Suc (count w)\<rparr>"
    from Cons.prems r True have "t \<le> windowStart w + W" by (simp add: times_of_def)
    with hit_within [of st c w t W] Cons.prems(1) True
    have n: "fst (hit W t c' st) = Suc (count w)" and st': "?st c = Some ?w" by simp_all
    from Cons.prems(2) r
    have "\<forall>t\<in>set (times_of c reqs). t \<le> windowStart ?w + W" by (simp add: times_of_def)
    with st' have "outcomes_of c (fst (middleware_run (hit W) ?st reqs)) =
        map (\<lambda>j. count ?w + j) [1..<Suc (length (times_of c reqs))] \<and>
      snd (middleware_run (hit W) ?st reqs) c =
        Some (?w\<lparr>count := count ?w + length (times_of c reqs)\<rparr>)"
      by (rule Cons.IH)
    then have ih: "outcomes_of c (fst (middleware_run (hit W) ?st reqs)) =
        map (\<lambda>j. Suc (count w) + j) [1..<Suc (length (times_of c reqs))]"
      "snd (middleware_run (hit W) ?st reqs) c =
        Some (w\<lparr>count := Suc (count w) + length (times_of c reqs)\<rparr>)"
      by simp_all
    have m: "map (\<lambda>j. count w + j) [1..<Suc (Suc (length (times_of c reqs)))] =
        Suc (count w) # map (\<lambda>j. Suc (count w) + j) [1..<Suc (length (times_of c reqs))]"
      by (simp add: upt_conv_Cons map_Suc_upt [symmetric] del: upt_Suc)
    have len: "length (times_of c (r # reqs)) = Suc (length (times_of c reqs))"
      using r True by (simp add: times_of_def)
    have "outcomes_of c (fst (middleware_run (hit W) st (r # reqs))) =
        Suc (count w) # outcomes_of c (fst (middleware_run (hit W) ?st reqs))"
      unfolding r run_Cons using True n by (simp add: outcomes_of_def)
    moreover have "snd (middleware_run (hit W) st (r # reqs)) c =
        snd (middleware_run (hit W) ?st reqs) c"
      unfolding r run_Cons by simp
    ultimately show ?thesis unfolding len using ih m by simp
  qed
qed

lemma run_append:
  "fst (middleware_run mw st (xs @ ys)) =
     fst (middleware_run mw st xs) @ fst (middleware_run mw (snd (middleware_run mw st xs)) ys)"
  "snd (middleware_run mw st (xs @ ys)) =
     snd (middleware_run mw (snd (middleware_run mw st xs)) ys)"
  by (simp_all add: middleware_run_append Let_def split: prod.splits)

lemma counts_in_window:
  assumes others: "list_all (\<lambda>r. snd r \<noteq> c) before"
    and closed: "case st c of None \<Rightarrow> True | Some w \<Rightarrow> windowStart w + W < t0"
    and within: "\<forall>t\<in>set (times_of c mid). t \<le> t0 + W"
  shows "outcomes_of c (fst (middleware_run (hit W) st (before @ (t0, c) # mid))) =
           [1..<Suc (Suc (length (times_of c mid)))]"
    and "snd (middleware_run (hit W) st (before @ (t0, c) # mid)) c =
           Some \<lparr>windowStart = t0, count = Suc (length (times_of c mid))\<rparr>"
proof -
  let ?sb = "snd (middleware_run (hit W) st before)"
  let ?w = "\<lparr>windowStart = t0, count = 1\<rparr>"
  let ?s1 = "snd (hit W t0 c ?sb)"
  from counts_of_others [OF others, of W st]
  have b: "outcomes_of c (fst (middleware_run (hit W) st before)) = []" "?sb c = st c"
    by simp_all
  from closed b(2) have "hit W t0 c ?sb = (1, ?sb(c := Some ?w))"
    by (cases "st c") (simp_all add: hit_open hit_elapsed)
  then have first: "fst (hit W t0 c ?sb) = 1" and s1: "?s1 c = Some ?w" by simp_all
  from within have "\<forall>t\<in>set (times_of c mid). t \<le> windowStart ?w + W" by simp
  with s1 have "outcomes_of c (fst (middleware_run (hit W) ?s1 mid)) =
        map (\<lambda>j. count ?w + j) [1..<Suc (length (times_of c mid))] \<and>
      snd (middleware_run (hit W) ?s1 mid) c =
        Some (?w\<lparr>count := count ?w + length (times_of c mid)\<rparr>)"
    by (rule counts_within)
  then have m: "outcomes_of c (fst (middleware_run (hit W) ?s1 mid)) =
        map Suc [1..<Suc (length (times_of c mid))]"
      "snd (middleware_run (hit W) ?s1 mid) c =
        Some \<lparr>windowStart = t0, count = Suc (length (times_of c mid))\<rparr>"
    by simp_all
  have u: "[1..<Suc (Suc (length (times_of c mid)))] =
      1 # map Suc [1..<Suc (length (times_of c mid))]"
    by (simp add: upt_conv_Cons map_Suc_upt del: upt_Suc)
  show "outcomes_of c (fst (middleware_run (hit W) st (before @ (t0, c) # mid))) =
           [1..<Suc (Suc (length (times_of c mid)))]"
    unfolding run_append run_Cons outcomes_of_append u
    using b(1) first m(1) by (simp add: outcomes_of_def)
  show "snd (middleware_run (hit W) st (before @ (t0, c) # mid)) c =
           Some \<lparr>windowStart = t0, count = Suc (length (times_of c mid))\<rparr>"
    unfolding run_append run_Cons using m(2) by simp
qed

lemma outcomes_of_single:
  "outcomes_of c (fst (middleware_run mw s [(t, c)])) = [fst (mw t c s)]"
  by (simp add: outcomes_of_def split: prod.splits)

lemma rateLimit_run:
  "middleware_run (rateLimit W N) st reqs =
     (map (\<lambda>p. (fst p, snd p \<le> N)) (fst (middleware_run (hit W) st reqs)),
      snd (middleware_run (hit W) st reqs))"
  by (rule middleware_run_map) (simp add: rateLimit_def split: prod.splits)

lemma speedLimiter_run:
  "middleware_run speedLimiter st reqs =
     (map (\<lambda>p. (fst p, speedLimiter_delay (snd p)))
        (fst (middleware_run (hit (spdTimeWindow * 60 * 1000)) st reqs)),
      snd (middleware_run (hit (spdTimeWindow * 60 * 1000)) st reqs))"
  by (rule middleware_run_map)
    (simp add: speedLimiter_def slowDown_def speedLimiter_delay_def split: prod.splits)

lemma passes_up_to_cap:
  "0 < N \<Longrightarrow> map (\<lambda>k. k \<le> N) [1..<Suc (Suc N)] = replicate N True @ [False]"
proof -
  have "map (\<lambda>k. k \<le> N) [1..<Suc N] = map (\<lambda>k. True) [1..<Suc N]"
    by (rule map_cong) auto
  also have "\<dots> = replicate N True" by (simp add: map_replicate_const)
  finally show ?thesis by simp
qed

lemma times_of_interleaved:
  "d \<noteq> c \<Longrightarrow> times_of c (concat (replicate n [(t, c), (t, d)])) = replicate n t"
  by (induction n) (simp_all add: times_of_def)

text \<open>
  C6. Take \<open>reqLimiter\<close> or \<open>encLimiter\<close> as src/app.js configures them, or any hard
  limiter with window length \<open>W\<close> and cap \<open>N > 0\<close>, and a sequence of requests of
  any clients in any order. A client \<open>c\<close> has no window open when its first request
  arrives at \<open>t0\<close> (or its window has elapsed); it sends \<open>N\<close> further requests no
  later than \<open>t0 + W\<close>, and one request after \<open>t0 + W\<close>. Whatever the other
  clients send in between, the outcomes of the requests of \<open>c\<close> are: the first \<open>N\<close>
  pass, the next one, the \<open>(N+1)\<close>-th in the window, is rejected, and the request
  after the window passes.
\<close>

theorem limiter_cap:
  assumes limiter: "(L, W, N) = (reqLimiter, reqTimeWindow * 60 * 1000, reqMaxRequests) \<or>
                    (L, W, N) = (encLimiter, encTimeWindow * 60 * 1000, encMaxRequests) \<or>
                    (L = rateLimit W N \<and> 0 < N)"
    and others: "list_all (\<lambda>r. snd r \<noteq> c) before"
    and closed: "case st c of None \<Rightarrow> True | Some w \<Rightarrow> windowStart w + W < t0"
    and cap: "length (times_of c mid) = N"
    and within: "\<forall>t\<in>set (times_of c mid). t \<le> t0 + W"
    and elapsed: "t0 + W < later"
  shows "outcomes_of c (fst (middleware_run L st (before @ (t0, c) # mid @ [(later, c)]))) =
           replicate N True @ [False, True]"
proof -
  from limiter have L: "L = rateLimit W N" and N: "0 < N"
    by (auto simp: reqLimiter_def encLimiter_def reqMaxRequests_def encMaxRequests_def)
  let ?reqs = "before @ (t0, c) # mid"
  let ?s = "snd (middleware_run (hit W) st ?reqs)"
  from others closed within
  have counts0: "outcomes_of c (fst (middleware_run (hit W) st ?reqs)) =
      [1..<Suc (Suc (length (times_of c mid)))]"
    by (rule counts_in_window(1))
  from others closed within
  have state0: "?s c = Some \<lparr>windowStart = t0, count = Suc (length (times_of c mid))\<rparr>"
    by (rule counts_in_window(2))
  from counts0 state0
  have counts: "outcomes_of c (fst (middleware_run (hit W) st ?reqs)) = [1..<Suc (Suc N)]"
    and state: "?s c = Some \<lparr>windowStart = t0, count = Suc N\<rparr>"
    by (simp_all add: cap)
  from state elapsed
  have "hit W later c ?s = (1, ?s(c := Some \<lparr>windowStart = later, count = 1\<rparr>))"
    by (intro hit_elapsed [where w = "\<lparr>windowStart = t0, count = Suc N\<rparr>"]) simp_all
  then have last: "fst (hit W later c ?s) = 1" by simp
  have split: "before @ (t0, c) # mid @ [(later, c)] = ?reqs @ [(later, c)]" by simp
  have hits: "outcomes_of c (fst (middleware_run (hit W) st (before @ (t0, c) # mid @ [(later, c)]))) =
      [1..<Suc (Suc N)] @ [1]"
    unfolding split run_append(1) [of "hit W" st ?reqs] outcomes_of_append outcomes_of_single
      counts last ..
  have "outcomes_of c (fst (middleware_run L st (before @ (t0, c) # mid @ [(later, c)]))) =
      map (\<lambda>k. k \<le> N) ([1..<Suc (Suc N)] @ [1])"
    unfolding L rateLimit_run fst_conv
    by (simp only: outcomes_of_map [of c "\<lambda>k. k \<le> N"] hits)
  also have "\<dots> = map (\<lambda>k. k \<le> N) [1..<Suc (Suc N)] @ [True]"
    using N by simp
  also have "\<dots> = replicate N True @ [False, True]"
    by (simp only: passes_up_to_cap [OF N]) simp
  finally show ?thesis .
qed

theorem limiter_cap_witness:
  "outcomes_of ''a'' (fst (middleware_run reqLimiter Map.empty
      ([(0, ''b'')] @ (0, ''a'') # concat (replicate 100 [(1, ''a''), (1, ''b'')]) @
       [(900001, ''a'')]))) = replicate 100 True @ [False, True] \<and>
   outcomes_of ''a'' (fst (middleware_run encLimiter Map.empty
      ([(0, ''b'')] @ (0, ''a'') # concat (replicate 10 [(1, ''a''), (1, ''b'')]) @
       [(1800001, ''a'')]))) = replicate 10 True @ [False, True]"
proof -
  have ne: "''b'' \<noteq> ''a''" by simp
  have t100: "times_of ''a'' (concat (replicate 100 [(1::int, ''a''), (1, ''b'')])) = replicate 100 1"
    using ne by (rule times_of_interleaved)
  have t10: "times_of ''a'' (concat (replicate 10 [(1::int, ''a''), (1, ''b'')])) = replicate 10 1"
    using ne by (rule times_of_interleaved)
  have o: "list_all (\<lambda>r. snd r \<noteq> ''a'') [(0::int, ''b'')]" by simp
  have req: "outcomes_of ''a'' (fst (middleware_run reqLimiter Map.empty
      ([(0, ''b'')] @ (0, ''a'') # concat (replicate 100 [(1, ''a''), (1, ''b'')]) @
       [(900001, ''a'')]))) = replicate reqMaxRequests True @ [False, True]"
    by (rule limiter_cap [where W = "reqTimeWindow * 60 * 1000"])
       (simp_all add: t100 reqTimeWindow_def reqMaxRequests_def)
  have enc: "outcomes_of ''a'' (fst (middleware_run encLimiter Map.empty
      ([(0, ''b'')] @ (0, ''a'') # concat (replicate 10 [(1, ''a''), (1, ''b'')]) @
       [(1800001, ''a'')]))) = replicate encMaxRequests True @ [False, True]"
    by (rule limiter_cap [where W = "encTimeWindow * 60 * 1000"])
       (simp_all add: t10 encTimeWindow_def encMaxRequests_def)
  from req enc show ?thesis by (simp only: reqMaxRequests_def encMaxRequests_def) 
qed

section \<open>The progressive slowdown\<close>

lemma delay_mono:
  "j \<le> k \<Longrightarrow> speedLimiter_delay j \<le> speedLimiter_delay k"
  by (auto simp: speedLimiter_delay_def slowDown_delay_def delayMs_def spdMaxRequests_def
      spdMaxDelayTime_def min_def)

lemma speedLimiter_delay_eq:
  "speedLimiter_delay k =
     (if spdMaxRequests < k
      then min ((int k - int spdMaxRequests) * 100) (spdMaxDelayTime * 1000) else 0)"
  by (simp add: speedLimiter_delay_def slowDown_delay_def delayMs_def)

text \<open>
  C7. Take a sequence of requests of any clients in any order, in which a client
  \<open>c\<close> has no window open when its first request arrives at \<open>t0\<close> (or its window
  has elapsed) and sends its further requests no later than the end of the
  slowdown window. Whatever the other clients send in between, the \<open>k\<close>-th request
  of \<open>c\<close> is delayed by \<open>speedLimiter\<close> for
  \<open>min ((k - spdMaxRequests) * 100) (spdMaxDelayTime * 1000)\<close> milliseconds when
  \<open>k\<close> is above the threshold \<open>spdMaxRequests\<close>, and not at all up to the
  threshold; and the delays of the requests of \<open>c\<close> never decrease.
\<close>

theorem slowdown_delay_formula:
  assumes others: "list_all (\<lambda>r. snd r \<noteq> c) before"
    and closed: "case st c of None \<Rightarrow> True
                 | Some w \<Rightarrow> windowStart w + spdTimeWindow * 60 * 1000 < t0"
    and within: "\<forall>t\<in>set (times_of c mid). t \<le> t0 + spdTimeWindow * 60 * 1000"
  shows "outcomes_of c (fst (middleware_run speedLimiter st (before @ (t0, c) # mid))) =
           map (\<lambda>k. if spdMaxRequests < k
                    then min ((int k - int spdMaxRequests) * 100) (spdMaxDelayTime * 1000)
                    else 0)
             [1..<Suc (Suc (length (times_of c mid)))] \<and>
         sorted (outcomes_of c (fst (middleware_run speedLimiter st (before @ (t0, c) # mid))))"
proof -
  from others closed within
  have counts: "outcomes_of c
      (fst (middleware_run (hit (spdTimeWindow * 60 * 1000)) st (before @ (t0, c) # mid))) =
      [1..<Suc (Suc (length (times_of c mid)))]"
    by (rule counts_in_window(1))
  have run: "outcomes_of c (fst (middleware_run speedLimiter st (before @ (t0, c) # mid))) =
      map speedLimiter_delay [1..<Suc (Suc (length (times_of c mid)))]"
    unfolding speedLimiter_run fst_conv
    by (simp only: outcomes_of_map [of c speedLimiter_delay] counts)
  have "sorted (map speedLimiter_delay [1..<Suc (Suc (length (times_of c mid)))])"
    unfolding sorted_map
    by (rule sorted_wrt_mono_rel [OF _ sorted_upt]) (simp add: delay_mono)
  with run show ?thesis by (simp only: speedLimiter_delay_eq [abs_def] simp_thms)
qed

theorem slowdown_delay_formula_witness:
  "take 4 (outcomes_of ''a'' (fst (middleware_run speedLimiter Map.empty
      ([(0, ''b'')] @ (0, ''a'') # concat (replicate 120 [(1, ''a''), (1, ''b'')]))))) =
     [0, 100, 200, 300] \<and>
   outcomes_of ''a'' (fst (middleware_run speedLimiter Map.empty
      ([(0, ''b'')] @ (0, ''a'') # concat (replicate 120 [(1, ''a''), (1, ''b'')])))) ! 100 =
     10000 \<and>
   outcomes_of ''a'' (fst (middleware_run speedLimiter Map.empty
      ([(0, ''b'')] @ (0, ''a'') # concat (replicate 120 [(1, ''a''), (1, ''b'')])))) ! 120 =
     10000 \<and>
   sorted (outcomes_of ''a'' (fst (middleware_run speedLimiter Map.empty
      ([(0, ''b'')] @ (0, ''a'') # concat (replicate 120 [(1, ''a''), (1, ''b'')])))))"
proof -
  let ?outs = "outcomes_of ''a'' (fst (middleware_run speedLimiter Map.empty
      ([(0, ''b'')] @ (0, ''a'') # concat (replicate 120 [(1, ''a''), (1, ''b'')]))))"
  have ne: "''b'' \<noteq> ''a''" by simp
  have t: "times_of ''a'' (concat (replicate 120 [(1::int, ''a''), (1, ''b'')])) = replicate 120 1"
    using ne by (rule times_of_interleaved)
  have others: "list_all (\<lambda>r. snd r \<noteq> ''a'') [(0::int, ''b'')]" by simp
  have closed: "case Map.empty ''a'' of None \<Rightarrow> True
      | Some w \<Rightarrow> windowStart w + spdTimeWindow * 60 * 1000 < 0"
    by simp
  have within: "\<forall>t\<in>set (times_of ''a'' (concat (replicate 120 [(1, ''a''), (1, ''b'')]))).
      t \<le> 0 + spdTimeWindow * 60 * 1000"
    by (simp add: t spdTimeWindow_def)
  note run = slowdown_delay_formula [where c = "''a''" and before = "[(0, ''b'')]"
        and st = Map.empty and ?t0.0 = 0
        and mid = "concat (replicate 120 [(1, ''a''), (1, ''b'')])", OF others closed within,
        unfolded t length_replicate]
  from run have eq: "?outs = map (\<lambda>k. if spdMaxRequests < k
               then min ((int k - int spdMaxRequests) * 100) (spdMaxDelayTime * 1000)
               else 0) [1..<Suc (Suc 120)]"
    by (rule conjunct1)
  from run have srt: "sorted ?outs"
    by (rule conjunct2)
  have u: "[1..<Suc (Suc 120)] = 1 # 2 # 3 # 4 # [5..<122]"
    by (simp add: upt_conv_Cons del: upt_Suc)
  have a: "take 4 ?outs = [0, 100, 200, 300]"
    unfolding eq u by (simp add: spdMaxRequests_def spdMaxDelayTime_def)
  have b: "?outs ! 100 = 10000"
    unfolding eq by (simp add: spdMaxRequests_def spdMaxDelayTime_def del: upt_Suc)
  have c: "?outs ! 120 = 10000"
    unfolding eq by (simp add: spdMaxRequests_def spdMaxDelayTime_def del: upt_Suc)
  from a b c srt show ?thesis by (intro conjI)
qed

section \<open>The order of the limiters\<close>

lemma pad_4: "pad 4 k = [digit_char (k div 1000), digit_char (k div 100), digit_char (k div 10), digit_char k]"
proof -
  have "(4::nat) = Suc (Suc (Suc (Suc 0)))" by simp
  then have "pad 4 k = pad (Suc (Suc (Suc (Suc 0)))) k" by (simp only:)
  also have "\<dots> = [digit_char (k div 10 div 10 div 10), digit_char (k div 10 div 10), digit_char (k div 10), digit_char k]"
    by simp
  also have "k div 10 div 10 div 10 = k div 1000" by (simp add: div_mult2_eq [symmetric])
  also have "k div 10 div 10 = k div 100" by (simp add: div_mult2_eq [symmetric])
  finally show ?thesis .
qed

lemma numbered:
  "numbered_ids (0) = ''note-identifier-_0000''"
  "numbered_ids (Suc 0) = ''note-identifier-_0001''"
  "numbered_ids (Suc (Suc 0)) = ''note-identifier-_0002''"
  "numbered_ids (Suc (Suc (Suc 0))) = ''note-identifier-_0003''"
  "numbered_ids (Suc (Suc (Suc (Suc 0)))) = ''note-identifier-_0004''"
  "numbered_ids (Suc (Suc (Suc (Suc (Suc 0))))) = ''note-identifier-_0005''"
  "numbered_ids (Suc (Suc (Suc (Suc (Suc (Suc 0)))))) = ''note-identifier-_0006''"
  "numbered_ids (Suc (Suc (Suc (Suc (Suc (Suc (Suc 0))))))) = ''note-identifier-_0007''"
  "numbered_ids (Suc (Suc (Suc (Suc (Suc (Suc (Suc (Suc 0)))))))) = ''note-identifier-_0008''"
  "numbered_ids (Suc (Suc (Suc (Suc (Suc (Suc (Suc (Suc (Suc 0))))))))) = ''note-identifier-_0009''"
  by (simp_all add: numbered_ids_def pad_4 digit_char_def)

lemmas pipeline_defs = handle_request_def startup_def reqLimiter_def speedLimiter_def encLimiter_def
      rateLimit_def slowDown_def slowDown_delay_def hit_def current_window_def Let_def
      reqTimeWindow_def reqMaxRequests_def spdTimeWindow_def spdMaxRequests_def spdMaxDelayTime_def
      encTimeWindow_def encMaxRequests_def delayMs_def post_encrypt_def post_encrypt_loop_free add_note.simps
      dbFindData_def dbAddData_def numbered noteUrl_def

lemma post_encrypt_Json_id:
  "post_encrypt nanoid i host body now db = Some (r, y) \<Longrightarrow> r \<noteq> Json_error_encryption"
  by (auto simp: post_encrypt_def split: option.splits sum.splits)

text \<open>
  C8, as the code has it. The global limiter runs before the slowdown: a request
  it rejects is answered with no delay, and nothing but the global counter
  changes. The write limiter runs after the slowdown: a write request it rejects
  has been delayed by what the slowdown computed for it, and the write limiter
  was asked at the time the delay ended.
\<close>

theorem slowdown_after_global_before_write:
  "(\<not> fst (reqLimiter now client (reqHits s)) \<longrightarrow>
      handle_request nanoid now client req s =
        Some (Render_note_error_requests, 0,
              s\<lparr>reqHits := snd (reqLimiter now client (reqHits s))\<rparr>)) \<and>
   (handle_request nanoid now client (Post_encrypt host body) s =
        Some (Json_error_encryption, d, s') \<longrightarrow>
      d = fst (speedLimiter now client (spdHits s)) \<and>
      \<not> fst (encLimiter (now + d) client (encHits s)))"
  by (auto simp: handle_request_def Let_def split: prod.splits if_splits option.splits
      dest: post_encrypt_Json_id)

theorem slowdown_after_global_before_write_witness:
  "handle_request numbered_ids 1704067200000 ''10.0.0.7'' (Get_root Undefined)
     (startup\<lparr>reqHits := (reqHits startup)
        (''10.0.0.7'' := Some \<lparr>windowStart = 1704067200000, count = 100\<rparr>)\<rparr>) =
     Some (Render_note_error_requests, 0,
       startup\<lparr>reqHits := (reqHits startup)
        (''10.0.0.7'' := Some \<lparr>windowStart = 1704067200000, count = 101\<rparr>)\<rparr>) \<and>
   fst (speedLimiter 1704067200000 ''10.0.0.7''
     ((spdHits startup)(''10.0.0.7'' := Some \<lparr>windowStart = 1704067200000, count = 10\<rparr>))) =
     1000"
proof -
  let ?g = "startup\<lparr>reqHits := (reqHits startup)
        (''10.0.0.7'' := Some \<lparr>windowStart = 1704067200000, count = 100\<rparr>)\<rparr>"
  let ?e = "startup\<lparr>spdHits := (spdHits startup)
        (''10.0.0.7'' := Some \<lparr>windowStart = 1704067200000, count = 10\<rparr>),
      encHits := (encHits startup)
        (''10.0.0.7'' := Some \<lparr>windowStart = 1704067200000, count = 10\<rparr>)\<rparr>"
  have r: "reqLimiter 1704067200000 ''10.0.0.7'' (reqHits ?g) =
      (False, (reqHits startup)
        (''10.0.0.7'' := Some \<lparr>windowStart = 1704067200000, count = 101\<rparr>))"
    by (simp add: reqLimiter_def rateLimit_def hit_def current_window_def startup_def
        reqTimeWindow_def reqMaxRequests_def)
  have w: "\<exists>s'. handle_request numbered_ids 1704067200000 ''10.0.0.7''
       (Post_encrypt ''notelock.example'' (Body_form (Str ''abc''))) ?e = Some (Json_error_encryption, 1000, s')"
    by (simp add: pipeline_defs)
  then obtain s' where w': "handle_request numbered_ids 1704067200000 ''10.0.0.7''
       (Post_encrypt ''notelock.example'' (Body_form (Str ''abc''))) ?e = Some (Json_error_encryption, 1000, s')"
    by blast
  from slowdown_after_global_before_write [of 1704067200000 "''10.0.0.7''" ?g numbered_ids
      "Get_root Undefined"] r
  have one: "handle_request numbered_ids 1704067200000 ''10.0.0.7'' (Get_root Undefined) ?g =
     Some (Render_note_error_requests, 0,
       startup\<lparr>reqHits := (reqHits startup)
        (''10.0.0.7'' := Some \<lparr>windowStart = 1704067200000, count = 101\<rparr>)\<rparr>)"
    by (simp add: startup_def)
  from slowdown_after_global_before_write [of 1704067200000 "''10.0.0.7''" ?e numbered_ids
      "Get_root Undefined" "''notelock.example''" "Body_form (Str ''abc'')" 1000 s'] w'
  have two: "1000 = fst (speedLimiter 1704067200000 ''10.0.0.7'' (spdHits ?e))"
    by blast
  from one two show ?thesis by (simp add: startup_def)
qed

text \<open>
  C8 as stated puts both hard limiters before the slowdown. Eleven writes of one
  client at one instant: the eleventh is rejected by the write limiter and has
  been delayed by a second.
\<close>

theorem write_rejection_pays_delay_counterexample:
  "map_option fst (handle_requests numbered_ids startup
     [(1704067200000, ''10.0.0.7'', Post_encrypt ''h'' (Body_form (Str ''abc''))),
      (1704067200000, ''10.0.0.7'', Post_encrypt ''h'' (Body_form (Str ''abc''))),
      (1704067200000, ''10.0.0.7'', Post_encrypt ''h'' (Body_form (Str ''abc''))),
      (1704067200000, ''10.0.0.7'', Post_encrypt ''h'' (Body_form (Str ''abc''))),
      (1704067200000, ''10.0.0.7'', Post_encrypt ''h'' (Body_form (Str ''abc''))),
      (1704067200000, ''10.0.0.7'', Post_encrypt ''h'' (Body_form (Str ''abc''))),
      (1704067200000, ''10.0.0.7'', Post_encrypt ''h'' (Body_form (Str ''abc''))),
      (1704067200000, ''10.0.0.7'', Post_encrypt ''h'' (Body_form (Str ''abc''))),
      (1704067200000, ''10.0.0.7'', Post_encrypt ''h'' (Body_form (Str ''abc''))),
      (1704067200000, ''10.0.0.7'', Post_encrypt ''h'' (Body_form (Str ''abc''))),
      (1704067200000, ''10.0.0.7'', Post_encrypt ''h'' (Body_form (Str ''abc'')))]) =
   Some [(Json_id ''https://h/?n=note-identifier-_0000#'', 0),
   (Json_id ''https://h/?n=note-identifier-_0001#'', 100),
   (Json_id ''https://h/?n=note-identifier-_0002#'', 200),
   (Json_id ''https://h/?n=note-identifier-_0003#'', 300),
   (Json_id ''https://h/?n=note-identifier-_0004#'', 400),
   (Json_id ''https://h/?n=note-identifier-_0005#'', 500),
   (Json_id ''https://h/?n=note-identifier-_0006#'', 600),
   (Json_id ''https://h/?n=note-identifier-_0007#'', 700),
   (Json_id ''https://h/?n=note-identifier-_0008#'', 800),
   (Json_id ''https://h/?n=note-identifier-_0009#'', 900),
   (Json_error_encryption, 1000)]"
  by (simp add: pipeline_defs)

end
